theory Spec2Isabelle
  imports Main "HOL-Library.AList"
begin

section \<open>The session-oriented HTTP transport (streamable-http-transport)\<close>

text \<open>
  The development embeds the TypeScript transport of
  \<^verbatim>\<open>src/transports/streamable-http-transport\<close> (the variant with the
  \<^verbatim>\<open>SessionManager\<close> class, the validation and error helpers and the three
  endpoint handlers).  Times are JavaScript epoch milliseconds, modelled as \<open>int\<close>.
  An Express \<^verbatim>\<open>Response\<close> object is identified by a handle (a natural number).
  The values that the code draws from its environment (\<^verbatim>\<open>randomUUID()\<close>,
  \<^verbatim>\<open>new Date()\<close>, \<^verbatim>\<open>Date.now()\<close>) are parameters of the model.
  Console logging does not influence any state or response and is left out, except for
  the count that \<^verbatim>\<open>cleanupStale\<close> reports.
\<close>

subsection \<open>Data model\<close>

type_synonym time = int
type_synonym handle = nat

text \<open>\<^verbatim>\<open>interface Session { id; response; createdAt; lastActivity }\<close>\<close>

record session =
  id_field :: string
  response :: handle
  createdAt :: time
  lastActivity :: time

text \<open>
  \<^verbatim>\<open>private sessions = new Map<string, Session>()\<close>: a JavaScript \<open>Map\<close> keeps its
  entries in insertion order, \<open>set\<close> on an existing key replaces the value in place and
  on a new key appends, \<open>delete\<close> drops the entry.  This is an association list with
  \<open>AList.update\<close>, \<open>AList.delete\<close> and \<open>map_of\<close>; a list that represents a \<open>Map\<close>
  has distinct keys.
\<close>

type_synonym SessionManager = "(string \<times> session) list"

datatype json =
    JNull
  | JBool bool
  | JNumber int
  | JString string
  | JArray "json list"
  | JObject "(string \<times> json) list"

datatype payload = NoBody | JsonBody json | TextBody string | StreamChunk string

record http_response =
  status :: nat
  headers :: "(string \<times> string) list"
  body :: payload
  ended :: bool

text \<open>
  What the server reads of a request: the verb, the header table (Node lower-cases the
  header names), the outcome of \<^verbatim>\<open>express.json()\<close> on the body, and whether
  \<^verbatim>\<open>express.json()\<close> read a body from the request stream at all (it does so for a
  request of any verb that carries a JSON body, and leaves the stream alone otherwise).
\<close>

record body_error =
  isSyntaxError :: bool
  hasBodyProperty :: bool
  errStatus :: "nat option"

datatype body_outcome = Parsed | ParseFailed body_error

record request =
  reqMethod :: string
  reqHeaders :: "(string \<times> string) list"
  bodyOutcome :: body_outcome
  jsonBodyRead :: bool

subsection \<open>Constants\<close>

definition INVALID_REQUEST :: int where
  "INVALID_REQUEST = - 32600"

definition UNAUTHORIZED :: int where
  "UNAUTHORIZED = - 32001"

definition MAX_AGE_MS :: int where
  "MAX_AGE_MS = 3600000"

definition CLEANUP_INTERVAL_MS :: int where
  "CLEANUP_INTERVAL_MS = 300000"

definition ALLOW_ORIGIN :: string where
  "ALLOW_ORIGIN = ''*''"

definition ALLOW_METHODS :: string where
  "ALLOW_METHODS = ''GET, POST, DELETE, OPTIONS''"

definition ALLOW_HEADERS :: string where
  "ALLOW_HEADERS = ''Content-Type, Mcp-Session-Id''"

definition EXPOSE_HEADERS :: string where
  "EXPOSE_HEADERS = ''Mcp-Session-Id''"

subsection \<open>SessionManager\<close>

text \<open>
  \<^verbatim>\<open>createSession(res)\<close>: \<open>sessionId\<close> is the value of \<^verbatim>\<open>randomUUID()\<close>, and
  \<open>tCreated\<close>, \<open>tActivity\<close> are the two readings of \<^verbatim>\<open>new Date()\<close>.  Returns the
  updated manager and the session id.
\<close>

definition createSession ::
  "SessionManager \<Rightarrow> handle \<Rightarrow> string \<Rightarrow> time \<Rightarrow> time \<Rightarrow> SessionManager \<times> string" where
  "createSession sm res sessionId tCreated tActivity =
     (AList.update sessionId
        \<lparr>id_field = sessionId, response = res, createdAt = tCreated, lastActivity = tActivity\<rparr> sm,
      sessionId)"

text \<open>
  \<^verbatim>\<open>getSession(sessionId)\<close>: the found session object is mutated in place
  (\<^verbatim>\<open>session.lastActivity = new Date()\<close>) and returned; \<open>undefined\<close> is \<open>None\<close>.
\<close>

definition getSession ::
  "SessionManager \<Rightarrow> string \<Rightarrow> time \<Rightarrow> SessionManager \<times> session option" where
  "getSession sm sessionId now =
     (case map_of sm sessionId of
        Some session \<Rightarrow>
          (AList.update sessionId (session\<lparr>lastActivity := now\<rparr>) sm,
           Some (session\<lparr>lastActivity := now\<rparr>))
      | None \<Rightarrow> (sm, None))"

definition validateSession :: "SessionManager \<Rightarrow> string \<Rightarrow> bool" where
  "validateSession sm sessionId = (map_of sm sessionId \<noteq> None)"

definition deleteSession :: "SessionManager \<Rightarrow> string \<Rightarrow> SessionManager" where
  "deleteSession sm sessionId =
     (case map_of sm sessionId of
        Some session \<Rightarrow> AList.delete sessionId sm
      | None \<Rightarrow> sm)"

text \<open>
  \<^verbatim>\<open>cleanupStale(maxAgeMs)\<close>.  The \<open>for \<dots> of this.sessions.entries()\<close> loop visits
  every entry once, in insertion order; deleting the entry being visited does not
  disturb the iteration, so the loop runs over the entries present at its start.
  The function is declared \<^verbatim>\<open>: void\<close>: its result is \<open>undefined\<close>, and the final
  \<open>cleanedCount\<close> only reaches the console, when it is positive.
\<close>

fun cleanupLoop ::
  "time \<Rightarrow> int \<Rightarrow> (string \<times> session) list \<Rightarrow> SessionManager \<Rightarrow> nat \<Rightarrow> SessionManager \<times> nat" where
  "cleanupLoop now maxAgeMs [] sm cleanedCount = (sm, cleanedCount)"
| "cleanupLoop now maxAgeMs ((sessionId, session) # rest) sm cleanedCount =
     (if now - lastActivity session > maxAgeMs
      then cleanupLoop now maxAgeMs rest (deleteSession sm sessionId) (cleanedCount + 1)
      else cleanupLoop now maxAgeMs rest sm cleanedCount)"

datatype jsvalue = Undefined | Number int

record cleanup_result =
  sessionsAfter :: SessionManager
  cleanedCount :: nat
  consoleCount :: "nat option"
  returned :: jsvalue

definition cleanupStale :: "SessionManager \<Rightarrow> int \<Rightarrow> time \<Rightarrow> cleanup_result" where
  "cleanupStale sm maxAgeMs now =
     (case cleanupLoop now maxAgeMs sm sm 0 of
        (sm', n) \<Rightarrow>
          \<lparr>sessionsAfter = sm', cleanedCount = n,
           consoleCount = (if n > 0 then Some n else None),
           returned = Undefined\<rparr>)"

definition getActiveCount :: "SessionManager \<Rightarrow> nat" where
  "getActiveCount sm = length sm"

subsection \<open>Validation and error helpers\<close>

text \<open>
  \<^verbatim>\<open>typeof sessionId === "string" && sessionId.length > 0\<close>; an absent header is
  \<open>undefined\<close>, here \<open>None\<close>.
\<close>

definition validateSessionIdHeader :: "string option \<Rightarrow> bool" where
  "validateSessionIdHeader sessionId =
     (case sessionId of None \<Rightarrow> False | Some s \<Rightarrow> length s > 0)"

definition extractSessionId :: "request \<Rightarrow> string option" where
  "extractSessionId req = map_of (reqHeaders req) ''mcp-session-id''"

text \<open>
  \<^verbatim>\<open>createJsonRpcError(code, message, id?)\<close>: the \<open>id\<close> member is spread into the
  object only when the argument is not \<open>undefined\<close>.
\<close>

definition createJsonRpcError :: "int \<Rightarrow> string \<Rightarrow> json option \<Rightarrow> json" where
  "createJsonRpcError code message ident =
     JObject
       ([(''jsonrpc'', JString ''2.0''),
         (''error'', JObject [(''code'', JNumber code), (''message'', JString message)])]
        @ (case ident of None \<Rightarrow> [] | Some i \<Rightarrow> [(''id'', i)]))"

text \<open>
  A handler receives the response object with the headers set by the middleware before
  it.  \<^verbatim>\<open>res.setHeader(name, v)\<close> and \<^verbatim>\<open>res.header(name, v)\<close> set a header,
  replacing an earlier value; \<^verbatim>\<open>res.status(c).json(v)\<close> sets the status, sends the
  value and ends the response.
\<close>

definition setHeader :: "string \<Rightarrow> string \<Rightarrow> http_response \<Rightarrow> http_response" where
  "setHeader name v res = res\<lparr>headers := AList.update name v (headers res)\<rparr>"

definition sendJson :: "http_response \<Rightarrow> nat \<Rightarrow> json \<Rightarrow> http_response" where
  "sendJson res statusCode v = res\<lparr>status := statusCode, body := JsonBody v, ended := True\<rparr>"

definition sendJsonRpcError :: "http_response \<Rightarrow> nat \<Rightarrow> int \<Rightarrow> string \<Rightarrow> http_response" where
  "sendJsonRpcError res statusCode errorCode message =
     sendJson res statusCode (createJsonRpcError errorCode message None)"

subsection \<open>Endpoint handlers\<close>

text \<open>
  \<^verbatim>\<open>handlePostMcp\<close>.  After the guard the type of \<open>sessionId\<close> is narrowed to
  \<open>string\<close>; the \<open>None\<close> branch below the guard is never taken.
\<close>

definition handlePostMcp ::
  "request \<Rightarrow> http_response \<Rightarrow> SessionManager \<Rightarrow> time \<Rightarrow> http_response \<times> SessionManager" where
  "handlePostMcp req res sm now =
     (let sessionId = extractSessionId req in
      if \<not> validateSessionIdHeader sessionId
      then (sendJsonRpcError res 400 INVALID_REQUEST
              ''Bad Request: Missing Mcp-Session-Id header'', sm)
      else
        (case sessionId of
           None \<Rightarrow> (sendJsonRpcError res 400 INVALID_REQUEST
                      ''Bad Request: Missing Mcp-Session-Id header'', sm)
         | Some sid \<Rightarrow>
            (case getSession sm sid now of
               (sm', None) \<Rightarrow>
                 (sendJsonRpcError res 401 UNAUTHORIZED
                    ''Unauthorized: Invalid or expired session ID'', sm')
             | (sm', Some session) \<Rightarrow>
                 (sendJson res 202 (JObject [(''accepted'', JBool True)]), sm'))))"

text \<open>\<^verbatim>\<open>if (sessionId)\<close>: \<open>undefined\<close> and the empty string are falsy.\<close>

definition truthy :: "string option \<Rightarrow> bool" where
  "truthy v = (case v of None \<Rightarrow> False | Some s \<Rightarrow> s \<noteq> [])"

definition handleDeleteMcp ::
  "request \<Rightarrow> http_response \<Rightarrow> SessionManager \<Rightarrow> http_response \<times> SessionManager" where
  "handleDeleteMcp req res sm =
     (let sessionId = extractSessionId req;
          sm' = (if truthy sessionId
                 then (case sessionId of Some sid \<Rightarrow> deleteSession sm sid | None \<Rightarrow> sm)
                 else sm)
      in (res\<lparr>status := 204, ended := True\<rparr>, sm'))"

text \<open>
  \<^verbatim>\<open>handleGetMcp\<close>: creates the session on the response object of this request
  (handle \<open>h\<close>), sets the four stream headers, writes the initial comment and leaves the
  response open.  The \<open>close\<close> listener it registers is part of the world model below.
\<close>

definition handleGetMcp ::
  "http_response \<Rightarrow> handle \<Rightarrow> SessionManager \<Rightarrow> string \<Rightarrow> time \<Rightarrow> time
     \<Rightarrow> http_response \<times> SessionManager \<times> string" where
  "handleGetMcp res h sm uuid tCreated tActivity =
     (case createSession sm h uuid tCreated tActivity of
        (sm', sessionId) \<Rightarrow>
          (let res1 = setHeader ''Content-Type'' ''text/event-stream'' res;
               res2 = setHeader ''Cache-Control'' ''no-cache'' res1;
               res3 = setHeader ''Connection'' ''keep-alive'' res2;
               res4 = setHeader ''Mcp-Session-Id'' sessionId res3
           in (res4\<lparr>body := StreamChunk
                       ('': MCP Streamable HTTP connection established'' @ [CHR 0x0A, CHR 0x0A])\<rparr>,
               sm', sessionId)))"

subsection \<open>The middleware chain of createHttpTransport\<close>

text \<open>
  Express hands every request a new response object: status 200, no headers, nothing
  written.  \<^verbatim>\<open>configureCors\<close> sets the four cross-origin headers and answers a
  preflight itself (\<^verbatim>\<open>res.sendStatus(200)\<close> sends the status text).
  \<open>corsHeaders\<close> is the header table of a new response after \<^verbatim>\<open>configureCors\<close>.
\<close>

definition freshResponse :: http_response where
  "freshResponse = \<lparr>status = 200, headers = [], body = NoBody, ended = False\<rparr>"

definition corsHeaders :: "(string \<times> string) list" where
  "corsHeaders =
     [(''Access-Control-Allow-Origin'', ALLOW_ORIGIN),
      (''Access-Control-Allow-Methods'', ALLOW_METHODS),
      (''Access-Control-Allow-Headers'', ALLOW_HEADERS),
      (''Access-Control-Expose-Headers'', EXPOSE_HEADERS)]"

definition configureCors :: "http_response \<Rightarrow> http_response" where
  "configureCors res =
     (let res1 = setHeader ''Access-Control-Allow-Origin'' ALLOW_ORIGIN res;
          res2 = setHeader ''Access-Control-Allow-Methods'' ALLOW_METHODS res1;
          res3 = setHeader ''Access-Control-Allow-Headers'' ALLOW_HEADERS res2
      in setHeader ''Access-Control-Expose-Headers'' EXPOSE_HEADERS res3)"

text \<open>
  The error-handling middleware registered right after \<^verbatim>\<open>express.json\<close>:
  \<^verbatim>\<open>err instanceof SyntaxError && "body" in err\<close> is answered with the JSON-RPC
  envelope, every other error is passed on with \<^verbatim>\<open>next(err)\<close>.  \<open>None\<close> stands
  for passing the error on.
\<close>

definition jsonErrorMiddleware :: "body_error \<Rightarrow> http_response \<Rightarrow> http_response option" where
  "jsonErrorMiddleware err res =
     (if isSyntaxError err \<and> hasBodyProperty err
      then Some (sendJsonRpcError res 400 INVALID_REQUEST ''Bad Request: Malformed JSON'')
      else None)"

text \<open>
  The values a handler draws from its environment while it serves one request:
  \<open>uuid\<close> is what \<^verbatim>\<open>randomUUID()\<close> returns, \<open>date1\<close> and \<open>date2\<close> are the first
  and second reading of \<^verbatim>\<open>new Date()\<close>.
\<close>

record env =
  uuid :: string
  date1 :: time
  date2 :: time

text \<open>
  The state of the server: the session manager, and the open stream connections whose
  \<open>close\<close> listener has not run yet.  Such a connection is the response object \<open>h\<close> of
  a \<open>GET\<close> request together with the session id that the listener captured.  Nothing
  in the source ever ends a stream response.
\<close>

record world =
  manager :: SessionManager
  openStreams :: "(handle \<times> string) list"

definition initial :: world where
  "initial = \<lparr>manager = [], openStreams = []\<rparr>"

text \<open>The \<open>switch (req.method)\<close> of \<^verbatim>\<open>app.all("/mcp", \<dots>)\<close>.\<close>

definition mcpEndpoint ::
  "request \<Rightarrow> http_response \<Rightarrow> handle \<Rightarrow> env \<Rightarrow> world \<Rightarrow> http_response \<times> world" where
  "mcpEndpoint req res h e w =
     (if reqMethod req = ''GET'' then
        (case handleGetMcp res h (manager w) (uuid e) (date1 e) (date2 e) of
           (res', sm', sessionId) \<Rightarrow>
             (res', w\<lparr>manager := sm', openStreams := openStreams w @ [(h, sessionId)]\<rparr>))
      else if reqMethod req = ''POST'' then
        (case handlePostMcp req res (manager w) (date1 e) of
           (res', sm') \<Rightarrow> (res', w\<lparr>manager := sm'\<rparr>))
      else if reqMethod req = ''DELETE'' then
        (case handleDeleteMcp req res (manager w) of
           (res', sm') \<Rightarrow> (res', w\<lparr>manager := sm'\<rparr>))
      else
        (sendJson res 405
           (JObject [(''error'', JString ''Method Not Allowed''),
                     (''allowed'', JArray [JString ''GET'', JString ''POST'', JString ''DELETE''])]),
         w))"

text \<open>
  A request to \<^verbatim>\<open>/mcp\<close> through the chain: CORS, body parser, parse-error
  middleware, endpoint.  An error that the middleware passes on reaches the default
  error handler of Express, which answers with the status of the error when that is
  an error status and with 500 otherwise; its page is not modelled.  The handlers of
  the model raise no exception, so the \<open>catch\<close> branch of the endpoint (status 500) has
  no counterpart.  The \<^verbatim>\<open>/health\<close> route is outside the model.
\<close>

definition defaultErrorStatus :: "body_error \<Rightarrow> nat" where
  "defaultErrorStatus err =
     (case errStatus err of
        None \<Rightarrow> 500
      | Some c \<Rightarrow> if 400 \<le> c \<and> c < 600 then c else 500)"

definition app :: "request \<Rightarrow> handle \<Rightarrow> env \<Rightarrow> world \<Rightarrow> http_response \<times> world" where
  "app req h e w =
     (let res = configureCors freshResponse in
      if reqMethod req = ''OPTIONS''
      then (res\<lparr>status := 200, body := TextBody ''OK'', ended := True\<rparr>, w)
      else
        (case bodyOutcome req of
           ParseFailed err \<Rightarrow>
             (case jsonErrorMiddleware err res of
                Some res' \<Rightarrow> (res', w)
              | None \<Rightarrow>
                  (res\<lparr>status := defaultErrorStatus err, body := TextBody [], ended := True\<rparr>, w))
         | Parsed \<Rightarrow> mcpEndpoint req res h e w))"

text \<open>
  What happens to the server: a request arrives on a response object, a client closes
  its stream connection, or the interval timer calls \<^verbatim>\<open>cleanupStale(maxAge)\<close> at
  \<^verbatim>\<open>Date.now() = now\<close> (\<^verbatim>\<open>createHttpTransport\<close> passes \<open>MAX_AGE_MS\<close>).

  \<^verbatim>\<open>handleGetMcp\<close> registers its listener with \<^verbatim>\<open>req.on("close", \<dots>)\<close>, on the request
  object.  The runtime emits \<open>close\<close> on a request object once, either when the
  connection goes away or, before that, as soon as the body of the request has been read
  to its end.  The listener runs \<^verbatim>\<open>deleteSession(sessionId)\<close> with the id that this
  request created.  So a stream-establish whose body \<^verbatim>\<open>express.json()\<close> has read loses
  its session right after the handler returns, while the client is still connected; the
  listener is spent, and a later disconnect of that stream has nothing left to run.
\<close>

datatype event =
    Request request handle env
  | Disconnect handle
  | Sweep int time

definition listenersOf :: "handle \<Rightarrow> world \<Rightarrow> string list" where
  "listenersOf h w = map snd (filter (\<lambda>p. fst p = h) (openStreams w))"

definition disconnect :: "handle \<Rightarrow> world \<Rightarrow> world" where
  "disconnect h w =
     w\<lparr>manager := fold (\<lambda>sessionId sm. deleteSession sm sessionId) (listenersOf h w) (manager w),
       openStreams := filter (\<lambda>p. fst p \<noteq> h) (openStreams w)\<rparr>"

definition closeAfterRead :: "request \<Rightarrow> bool" where
  "closeAfterRead req =
     (reqMethod req = ''GET'' \<and> bodyOutcome req = Parsed \<and> jsonBodyRead req)"

fun step :: "world \<Rightarrow> event \<Rightarrow> world" where
  "step w (Request req h e) =
     (let w' = snd (app req h e w) in
      if closeAfterRead req
      then w'\<lparr>manager := deleteSession (manager w') (uuid e), openStreams := openStreams w\<rparr>
      else w')"
| "step w (Disconnect h) = disconnect h w"
| "step w (Sweep maxAge now) = w\<lparr>manager := sessionsAfter (cleanupStale (manager w) maxAge now)\<rparr>"

fun run :: "world \<Rightarrow> event list \<Rightarrow> world" where
  "run w [] = w"
| "run w (ev # evs) = run (step w ev) evs"

subsection \<open>Histories\<close>

text \<open>
  The identifier that a request hands to its caller: the \<^verbatim>\<open>Mcp-Session-Id\<close> header of
  the response.  Only a stream-establish sets it.
\<close>

definition issuedId :: "world \<Rightarrow> event \<Rightarrow> string option" where
  "issuedId w ev =
     (case ev of
        Request req h e \<Rightarrow> map_of (headers (fst (app req h e w))) ''Mcp-Session-Id''
      | Disconnect h \<Rightarrow> None
      | Sweep maxAge now \<Rightarrow> None)"

text \<open>
  The three ways in which a session is destroyed, read off the event: a terminate
  request that names \<open>x\<close>, the disconnect of a stream whose listener holds \<open>x\<close>, a sweep
  that finds \<open>x\<close> inactive for longer than its maximum age.
\<close>

definition terminates :: "event \<Rightarrow> string \<Rightarrow> bool" where
  "terminates ev x =
     (case ev of
        Request req h e \<Rightarrow>
          reqMethod req = ''DELETE'' \<and> bodyOutcome req = Parsed
          \<and> extractSessionId req = Some x \<and> x \<noteq> []
      | Disconnect h \<Rightarrow> False
      | Sweep maxAge now \<Rightarrow> False)"

definition disconnects :: "world \<Rightarrow> event \<Rightarrow> string \<Rightarrow> bool" where
  "disconnects w ev x =
     (case ev of
        Request req h e \<Rightarrow> False
      | Disconnect h \<Rightarrow> x \<in> set (listenersOf h w)
      | Sweep maxAge now \<Rightarrow> False)"

definition expires :: "world \<Rightarrow> event \<Rightarrow> string \<Rightarrow> bool" where
  "expires w ev x =
     (case ev of
        Request req h e \<Rightarrow> False
      | Disconnect h \<Rightarrow> False
      | Sweep maxAge now \<Rightarrow>
          (case map_of (manager w) x of
             None \<Rightarrow> False
           | Some s \<Rightarrow> now - lastActivity s > maxAge))"

text \<open>An event whose own \<open>close\<close> listener runs with it.\<close>

definition closesAtOnce :: "event \<Rightarrow> bool" where
  "closesAtOnce ev =
     (case ev of
        Request req h e \<Rightarrow> closeAfterRead req
      | Disconnect h \<Rightarrow> False
      | Sweep maxAge now \<Rightarrow> False)"

text \<open>
  The specification's notion of a valid identifier, on a history: \<open>x\<close> is live when a
  stream-establish returned \<open>x\<close> and no terminate, disconnect or expiry has removed it
  since.  \<open>b\<close> is whether \<open>x\<close> is live before the history starts.
\<close>

fun liveAfter :: "world \<Rightarrow> bool \<Rightarrow> string \<Rightarrow> event list \<Rightarrow> bool" where
  "liveAfter w b x [] = b"
| "liveAfter w b x (ev # evs) =
     liveAfter (step w ev)
       (if issuedId w ev = Some x then True
        else if terminates ev x \<or> disconnects w ev x \<or> expires w ev x then False
        else b)
       x evs"

text \<open>
  The identifiers returned by the stream-establish calls of a history whose sessions
  are live at its end, one entry per call, in the order of the calls.
\<close>

fun issuedLive :: "world \<Rightarrow> string list \<Rightarrow> event list \<Rightarrow> string list" where
  "issuedLive w acc [] = acc"
| "issuedLive w acc (ev # evs) =
     issuedLive (step w ev)
       (filter (validateSession (manager (step w ev)))
          (case issuedId w ev of None \<Rightarrow> acc | Some x \<Rightarrow> acc @ [x]))
       evs"

text \<open>
  The hypothesis on the generator: whenever a request reaches \<^verbatim>\<open>createSession\<close>, the
  value that \<^verbatim>\<open>randomUUID()\<close> returns is not a key of the registry.  Only a
  request calls the generator; \<open>generated\<close> is read for such events only.
\<close>

definition callsGenerator :: "event \<Rightarrow> bool" where
  "callsGenerator ev =
     (case ev of
        Request req h e \<Rightarrow> reqMethod req = ''GET'' \<and> bodyOutcome req = Parsed
      | Disconnect h \<Rightarrow> False
      | Sweep maxAge now \<Rightarrow> False)"

definition generated :: "event \<Rightarrow> string" where
  "generated ev =
     (case ev of
        Request req h e \<Rightarrow> uuid e
      | Disconnect h \<Rightarrow> []
      | Sweep maxAge now \<Rightarrow> [])"

fun freshGenerator :: "world \<Rightarrow> event list \<Rightarrow> bool" where
  "freshGenerator w [] = True"
| "freshGenerator w (ev # evs) =
     ((if callsGenerator ev then \<not> validateSession (manager w) (generated ev) else True)
      \<and> freshGenerator (step w ev) evs)"

text \<open>
  A message request that carries identifier \<open>x\<close> and reaches \<^verbatim>\<open>handlePostMcp\<close>, and
  the clock reading of an event (\<^verbatim>\<open>new Date()\<close> in \<^verbatim>\<open>getSession\<close>,
  \<^verbatim>\<open>Date.now()\<close> in \<^verbatim>\<open>cleanupStale\<close>).  A disconnect reads no clock; its
  entry is never used.
\<close>

definition touches :: "event \<Rightarrow> string \<Rightarrow> bool" where
  "touches ev x =
     (case ev of
        Request req h e \<Rightarrow>
          reqMethod req = ''POST'' \<and> bodyOutcome req = Parsed \<and> extractSessionId req = Some x
      | Disconnect h \<Rightarrow> False
      | Sweep maxAge now \<Rightarrow> False)"

definition eventTime :: "event \<Rightarrow> time" where
  "eventTime ev =
     (case ev of
        Request req h e \<Rightarrow> date1 e
      | Disconnect h \<Rightarrow> 0
      | Sweep maxAge now \<Rightarrow> now)"

fun nextTouch :: "string \<Rightarrow> event list \<Rightarrow> time option" where
  "nextTouch x [] = None"
| "nextTouch x (ev # evs) = (if touches ev x then Some (eventTime ev) else nextTouch x evs)"

text \<open>
  A history keeps the cadence for session \<open>x\<close> (stream \<open>hx\<close>, last activity at \<open>prev\<close>)
  when every message request for \<open>x\<close> comes less than \<open>maxAge\<close> after the previous one,
  every sweep uses \<open>maxAge\<close> and runs no later than the next message request for \<open>x\<close>,
  and nothing else ends the session: no terminate request names \<open>x\<close>, the stream \<open>hx\<close>
  stays connected, and the generator does not return \<open>x\<close> again.
\<close>

fun cadence :: "string \<Rightarrow> handle \<Rightarrow> int \<Rightarrow> time \<Rightarrow> event list \<Rightarrow> bool" where
  "cadence x hx maxAge prev [] = True"
| "cadence x hx maxAge prev (ev # evs) =
     (if touches ev x
      then eventTime ev - prev < maxAge \<and> cadence x hx maxAge (eventTime ev) evs
      else
        (case ev of
           Request req h e \<Rightarrow>
             \<not> terminates ev x \<and> \<not> (callsGenerator ev \<and> generated ev = x)
         | Disconnect h \<Rightarrow> h \<noteq> hx
         | Sweep m now \<Rightarrow>
             m = maxAge \<and> (case nextTouch x evs of None \<Rightarrow> False | Some t \<Rightarrow> now \<le> t))
        \<and> cadence x hx maxAge prev evs)"

text \<open>All the worlds that a history passes through, the first one included.\<close>

fun worlds :: "world \<Rightarrow> event list \<Rightarrow> world list" where
  "worlds w [] = [w]"
| "worlds w (ev # evs) = w # worlds (step w ev) evs"

text \<open>
  The coupling of registry and stream handles: every registry entry refers to an open
  stream, and every open stream belongs to a session of the registry.
\<close>

definition registryOpen :: "world \<Rightarrow> bool" where
  "registryOpen w =
     list_all (\<lambda>p. response (snd p) \<in> fst ` set (openStreams w)) (manager w)"

definition streamsBound :: "world \<Rightarrow> bool" where
  "streamsBound w =
     list_all (\<lambda>q. validateSession (manager w) (snd q)) (openStreams w)"

subsection \<open>Invariants\<close>

text \<open>
  Every registry entry was created on a stream that is still open under the entry's key.
\<close>

definition bound :: "world \<Rightarrow> bool" where
  "bound w = (\<forall>p \<in> set (manager w). (response (snd p), fst p) \<in> set (openStreams w))"

text \<open>
  Session \<open>x\<close> is in the registry with last activity at \<open>prev\<close>, and \<open>hx\<close> is the only
  open stream whose listener holds \<open>x\<close>.
\<close>

definition keeps :: "world \<Rightarrow> string \<Rightarrow> handle \<Rightarrow> time \<Rightarrow> bool" where
  "keeps w x hx prev =
     (distinct (map fst (manager w))
      \<and> (\<exists>s. map_of (manager w) x = Some s \<and> lastActivity s = prev)
      \<and> (\<forall>q \<in> set (openStreams w). snd q = x \<longrightarrow> fst q = hx))"

subsection \<open>Example data\<close>

definition mkRequest :: "string \<Rightarrow> string option \<Rightarrow> request" where
  "mkRequest m sid =
     \<lparr>reqMethod = m,
      reqHeaders = (case sid of None \<Rightarrow> [] | Some s \<Rightarrow> [(''mcp-session-id'', s)]),
      bodyOutcome = Parsed,
      jsonBodyRead = False\<rparr>"

text \<open>A stream-establish request that carries the JSON body \<open>{}\<close>.\<close>

definition getWithBody :: request where
  "getWithBody =
     \<lparr>reqMethod = ''GET'',
      reqHeaders = [(''content-type'', ''application/json'')],
      bodyOutcome = Parsed,
      jsonBodyRead = True\<rparr>"

definition mkSession :: "string \<Rightarrow> handle \<Rightarrow> time \<Rightarrow> session" where
  "mkSession k h t = \<lparr>id_field = k, response = h, createdAt = t, lastActivity = t\<rparr>"

definition mkEnv :: "string \<Rightarrow> time \<Rightarrow> env" where
  "mkEnv u t = \<lparr>uuid = u, date1 = t, date2 = t\<rparr>"

section \<open>Properties\<close>

subsection \<open>Auxiliary facts about the registry\<close>

lemma deleteSession_eq: "deleteSession sm k = AList.delete k sm"
proof (cases "map_of sm k")
  case None
  then have "k \<notin> fst ` set sm" by (simp add: map_of_eq_None_iff)
  then show ?thesis using None by (simp add: deleteSession_def)
next
  case (Some s)
  then show ?thesis by (simp add: deleteSession_def)
qed

lemma cleanupLoop_filter:
  "cleanupLoop now m es sm c =
     (filter (\<lambda>p. fst p \<notin> fst ` set (filter (\<lambda>p. now - lastActivity (snd p) > m) es)) sm,
      c + length (filter (\<lambda>p. now - lastActivity (snd p) > m) es))"
proof (induction es arbitrary: sm c)
  case Nil
  show ?case by simp
next
  case (Cons e es)
  obtain k s where e: "e = (k, s)" by (cases e)
  show ?case
  proof (cases "now - lastActivity s > m")
    case True
    have "filter (\<lambda>p. fst p \<notin> fst ` set (filter (\<lambda>p. now - lastActivity (snd p) > m) es))
            (AList.delete k sm)
          = filter (\<lambda>p. fst p \<notin> insert k (fst ` set (filter (\<lambda>p. now - lastActivity (snd p) > m) es))) sm"
      by (induction sm) (auto simp: AList.delete_eq)
    then show ?thesis using True e Cons.IH by (simp add: deleteSession_eq)
  next
    case False
    then show ?thesis using e Cons.IH by simp
  qed
qed

lemma filter_stale_keys:
  assumes "distinct (map fst sm)"
  shows "filter (\<lambda>p. fst p \<notin> fst ` set (filter P sm)) sm = filter (\<lambda>p. \<not> P p) sm"
proof (rule filter_cong[OF refl])
  fix p assume p: "p \<in> set sm"
  show "(fst p \<notin> fst ` set (filter P sm)) = (\<not> P p)"
  proof
    assume "fst p \<notin> fst ` set (filter P sm)"
    then show "\<not> P p" using p by force
  next
    assume np: "\<not> P p"
    show "fst p \<notin> fst ` set (filter P sm)"
    proof
      assume "fst p \<in> fst ` set (filter P sm)"
      then obtain q where q: "q \<in> set sm" "P q" "fst q = fst p" by auto
      from assms p q have "q = p"
        by (metis eq_key_imp_eq_value prod.collapse)
      with q np show False by simp
    qed
  qed
qed

lemma sessionsAfter_cleanupStale:
  assumes "distinct (map fst sm)"
  shows "sessionsAfter (cleanupStale sm maxAge now)
           = filter (\<lambda>p. \<not> (now - lastActivity (snd p) > maxAge)) sm"
  unfolding cleanupStale_def cleanupLoop_filter filter_stale_keys[OF assms] by simp

lemma map_of_filter_distinct:
  assumes "distinct (map fst al)"
  shows "map_of (filter P al) x =
           (case map_of al x of None \<Rightarrow> None | Some v \<Rightarrow> if P (x, v) then Some v else None)"
  using assms
proof (induction al)
  case Nil
  show ?case by simp
next
  case (Cons a al)
  obtain k v where a: "a = (k, v)" by (cases a)
  from Cons.prems a have notin: "k \<notin> fst ` set al" and d: "distinct (map fst al)" by auto
  from notin have none: "map_of al k = None" by (simp add: map_of_eq_None_iff)
  show ?case
  proof (cases "x = k")
    case True
    have "map_of (filter P al) k = None"
      using notin by (auto simp: map_of_eq_None_iff)
    then show ?thesis using True a none by simp
  next
    case False
    then show ?thesis using a Cons.IH[OF d] by simp
  qed
qed

lemma distinct_map_fst_filter: "distinct (map fst al) \<Longrightarrow> distinct (map fst (filter P al))"
  by (induction al) auto

lemma map_of_fold_delete:
  "map_of (fold (\<lambda>k sm. deleteSession sm k) ks sm) x = (if x \<in> set ks then None else map_of sm x)"
  by (induction ks arbitrary: sm) (auto simp: deleteSession_eq AList.delete_conv')

lemma distinct_fold_delete:
  "distinct (map fst sm) \<Longrightarrow> distinct (map fst (fold (\<lambda>k sm. deleteSession sm k) ks sm))"
  by (induction ks arbitrary: sm) (auto simp: deleteSession_eq AList.distinct_delete)

lemma set_fold_delete:
  "set (fold (\<lambda>k sm. deleteSession sm k) ks sm) = {p \<in> set sm. fst p \<notin> set ks}"
  by (induction ks arbitrary: sm) (auto simp: deleteSession_eq AList.delete_eq)

text \<open>The manager and the open streams after a request.\<close>

lemma manager_app_cases:
  "manager (snd (app req h e w)) =
     (if reqMethod req = ''OPTIONS'' then manager w
      else case bodyOutcome req of
        ParseFailed err \<Rightarrow> manager w
      | Parsed \<Rightarrow>
         (if reqMethod req = ''GET'' then fst (createSession (manager w) h (uuid e) (date1 e) (date2 e))
          else if reqMethod req = ''POST'' then snd (handlePostMcp req (configureCors freshResponse) (manager w) (date1 e))
          else if reqMethod req = ''DELETE'' then snd (handleDeleteMcp req (configureCors freshResponse) (manager w))
          else manager w))"
  by (auto simp: app_def Let_def mcpEndpoint_def handleGetMcp_def createSession_def
      split: body_outcome.splits option.splits prod.splits)

lemma openStreams_app_cases:
  "openStreams (snd (app req h e w)) =
     (if reqMethod req = ''GET'' \<and> bodyOutcome req = Parsed
      then openStreams w @ [(h, uuid e)] else openStreams w)"
  by (auto simp: app_def Let_def mcpEndpoint_def handleGetMcp_def createSession_def
      split: body_outcome.splits option.splits prod.splits)

lemma post_manager:
  "snd (handlePostMcp req res sm now) =
     (case extractSessionId req of
        None \<Rightarrow> sm
      | Some x \<Rightarrow> if x = [] then sm else
          (case map_of sm x of None \<Rightarrow> sm
           | Some s \<Rightarrow> AList.update x (s\<lparr>lastActivity := now\<rparr>) sm))"
  by (auto simp: handlePostMcp_def Let_def validateSessionIdHeader_def getSession_def
      split: option.splits)

lemma delete_manager:
  "snd (handleDeleteMcp req res sm) =
     (case extractSessionId req of
        None \<Rightarrow> sm
      | Some x \<Rightarrow> if x = [] then sm else AList.delete x sm)"
  by (auto simp: handleDeleteMcp_def Let_def truthy_def deleteSession_eq split: option.splits)

lemma manager_step_Request:
  "manager (step w (Request req h e)) =
     (if closeAfterRead req then AList.delete (uuid e) (manager w)
      else manager (snd (app req h e w)))"
  by (simp add: Let_def closeAfterRead_def manager_app_cases createSession_def deleteSession_eq
      AList.delete_update_same)

lemma openStreams_step_Request:
  "openStreams (step w (Request req h e)) =
     (if closeAfterRead req then openStreams w else openStreams (snd (app req h e w)))"
  by (simp add: Let_def)

declare step.simps(1) [simp del]

lemma closeAfterRead_mkRequest [simp]: "\<not> closeAfterRead (mkRequest m sid)"
  by (simp add: closeAfterRead_def mkRequest_def)

lemma step_distinct:
  assumes "distinct (map fst (manager w))"
  shows "distinct (map fst (manager (step w ev)))"
proof (cases ev)
  case (Request req h e)
  show ?thesis
    using assms unfolding Request manager_step_Request manager_app_cases post_manager delete_manager
    by (auto simp: createSession_def AList.distinct_update AList.distinct_delete
        split: body_outcome.splits option.splits)
next
  case (Disconnect h)
  then show ?thesis using assms by (simp add: disconnect_def distinct_fold_delete)
next
  case (Sweep m now)
  then show ?thesis using assms
    by (simp add: sessionsAfter_cleanupStale distinct_map_fst_filter)
qed

lemma map_fst_update_present:
  "map_of al k = Some v \<Longrightarrow> map fst (AList.update k v' al) = map fst al"
  by (induction al) auto

subsection \<open>Auxiliary facts about responses and steps\<close>

lemma headers_sendJson [simp]: "headers (sendJson res c v) = headers res"
  by (simp add: sendJson_def)

lemma headers_sendJsonRpcError [simp]: "headers (sendJsonRpcError res c ec m) = headers res"
  by (simp add: sendJsonRpcError_def)

lemma headers_post [simp]: "headers (fst (handlePostMcp req res sm now)) = headers res"
  by (simp add: handlePostMcp_def Let_def split: option.splits prod.splits)

lemma headers_delete [simp]: "headers (fst (handleDeleteMcp req res sm)) = headers res"
  by (simp add: handleDeleteMcp_def Let_def)

lemma headers_get [simp]:
  "headers (fst (handleGetMcp res h sm u t1 t2)) =
     AList.update ''Mcp-Session-Id'' u
       (AList.update ''Connection'' ''keep-alive''
          (AList.update ''Cache-Control'' ''no-cache''
             (AList.update ''Content-Type'' ''text/event-stream'' (headers res))))"
  by (simp add: handleGetMcp_def createSession_def setHeader_def Let_def)

lemma headers_configureCors: "headers (configureCors freshResponse) = corsHeaders"
  by (simp add: configureCors_def setHeader_def freshResponse_def corsHeaders_def Let_def)

lemma headers_app:
  "headers (fst (app req h e w)) =
     (if reqMethod req = ''GET'' \<and> bodyOutcome req = Parsed
      then AList.update ''Mcp-Session-Id'' (uuid e)
             (AList.update ''Connection'' ''keep-alive''
                (AList.update ''Cache-Control'' ''no-cache''
                   (AList.update ''Content-Type'' ''text/event-stream'' corsHeaders)))
      else corsHeaders)"
  by (simp add: app_def Let_def mcpEndpoint_def jsonErrorMiddleware_def headers_configureCors
      split_beta split: body_outcome.splits)

lemma issuedId_Request:
  "issuedId w (Request req h e) =
     (if reqMethod req = ''GET'' \<and> bodyOutcome req = Parsed then Some (uuid e) else None)"
  by (simp add: issuedId_def headers_app AList.update_conv' corsHeaders_def)

lemma step_presence:
  assumes "distinct (map fst (manager w))" and nc: "\<not> closesAtOnce ev"
  shows "validateSession (manager (step w ev)) x =
     (if issuedId w ev = Some x then True
      else if terminates ev x \<or> disconnects w ev x \<or> expires w ev x then False
      else validateSession (manager w) x)"
proof (cases ev)
  case (Request req h e)
  show ?thesis
    using nc
    unfolding Request closesAtOnce_def event.case issuedId_Request validateSession_def
      manager_step_Request manager_app_cases post_manager delete_manager
    by (auto simp: terminates_def disconnects_def expires_def createSession_def
        AList.update_conv' AList.delete_conv' split: body_outcome.splits option.splits)
next
  case (Disconnect h)
  show ?thesis
    unfolding Disconnect
    by (simp add: issuedId_def terminates_def disconnects_def expires_def validateSession_def
        disconnect_def map_of_fold_delete)
next
  case (Sweep m now)
  show ?thesis
    unfolding Sweep
    by (simp add: issuedId_def terminates_def disconnects_def expires_def validateSession_def
        sessionsAfter_cleanupStale[OF assms(1)] map_of_filter_distinct[OF assms(1)]
        split: option.splits)
qed

lemma run_distinct:
  "distinct (map fst (manager w)) \<Longrightarrow> distinct (map fst (manager (run w evs)))"
  by (induction evs arbitrary: w) (simp_all add: step_distinct)

lemma liveAfter_presence:
  assumes "distinct (map fst (manager w))" and "list_all (\<lambda>ev. \<not> closesAtOnce ev) evs"
  shows "liveAfter w (validateSession (manager w) x) x evs = validateSession (manager (run w evs)) x"
  using assms
proof (induction evs arbitrary: w)
  case Nil
  show ?case by simp
next
  case (Cons ev evs)
  from Cons.prems(2) have nc: "\<not> closesAtOnce ev"
    and rest: "list_all (\<lambda>ev. \<not> closesAtOnce ev) evs" by simp_all
  have d: "distinct (map fst (manager (step w ev)))" by (rule step_distinct[OF Cons.prems(1)])
  show ?case
    using Cons.IH[OF d rest] step_presence[OF Cons.prems(1) nc, of x] by simp
qed

subsection \<open>Registry entries and open streams\<close>

lemma set_update_subset: "set (AList.update k v al) \<subseteq> insert (k, v) (set al)"
  by (induction al) auto

lemma set_delete_subset: "set (AList.delete k al) \<subseteq> set al"
  by (auto simp: AList.delete_eq)

lemma set_sessionsAfter_subset: "set (sessionsAfter (cleanupStale sm maxAge now)) \<subseteq> set sm"
  unfolding cleanupStale_def cleanupLoop_filter by auto

lemma openStreams_sweep [simp]: "openStreams (step w (Sweep maxAge now)) = openStreams w"
  by simp

lemma openStreams_disconnect:
  "openStreams (step w (Disconnect h)) = filter (\<lambda>p. fst p \<noteq> h) (openStreams w)"
  by (simp add: disconnect_def)

lemma step_bound:
  assumes "bound w"
  shows "bound (step w ev)"
proof (cases ev)
  case (Request req h e)
  have post: "\<And>x s now. map_of (manager w) x = Some s \<Longrightarrow>
      \<forall>p \<in> set (AList.update x (s\<lparr>lastActivity := now\<rparr>) (manager w)).
         (response (snd p), fst p) \<in> set (openStreams w)"
  proof
    fix x s now p
    assume m: "map_of (manager w) x = Some s"
      and p: "p \<in> set (AList.update x (s\<lparr>lastActivity := now\<rparr>) (manager w))"
    from m have "(x, s) \<in> set (manager w)" by (rule map_of_SomeD)
    with assms have xs: "(response s, x) \<in> set (openStreams w)" by (auto simp: bound_def)
    from p set_update_subset have "p = (x, s\<lparr>lastActivity := now\<rparr>) \<or> p \<in> set (manager w)"
      by fastforce
    then show "(response (snd p), fst p) \<in> set (openStreams w)"
      using xs assms by (auto simp: bound_def)
  qed
  have get: "\<forall>p \<in> set (AList.update (uuid e)
       \<lparr>id_field = uuid e, response = h, createdAt = date1 e, lastActivity = date2 e\<rparr> (manager w)).
         (response (snd p), fst p) \<in> set (openStreams w @ [(h, uuid e)])"
  proof
    fix p
    assume "p \<in> set (AList.update (uuid e)
       \<lparr>id_field = uuid e, response = h, createdAt = date1 e, lastActivity = date2 e\<rparr> (manager w))"
    with set_update_subset have "p = (uuid e,
       \<lparr>id_field = uuid e, response = h, createdAt = date1 e, lastActivity = date2 e\<rparr>)
       \<or> p \<in> set (manager w)" by fastforce
    then show "(response (snd p), fst p) \<in> set (openStreams w @ [(h, uuid e)])"
      using assms by (auto simp: bound_def)
  qed
  have del: "\<And>x. \<forall>p \<in> set (AList.delete x (manager w)).
         (response (snd p), fst p) \<in> set (openStreams w)"
    using assms set_delete_subset by (fastforce simp: bound_def)
  show ?thesis
    unfolding Request bound_def manager_step_Request openStreams_step_Request
      manager_app_cases openStreams_app_cases post_manager delete_manager
    using assms post get del
    by (auto simp: bound_def createSession_def split: body_outcome.splits option.splits)
next
  case (Disconnect h)
  show ?thesis
    unfolding Disconnect bound_def
  proof
    fix p
    assume "p \<in> set (manager (step w (Disconnect h)))"
    then have p: "p \<in> set (manager w)" and nl: "fst p \<notin> set (listenersOf h w)"
      by (auto simp: disconnect_def set_fold_delete)
    from p assms have o: "(response (snd p), fst p) \<in> set (openStreams w)"
      by (auto simp: bound_def)
    have "response (snd p) \<noteq> h"
    proof
      assume "response (snd p) = h"
      with o have "fst p \<in> set (listenersOf h w)" by (force simp: listenersOf_def)
      with nl show False by simp
    qed
    with o show "(response (snd p), fst p) \<in> set (openStreams (step w (Disconnect h)))"
      by (simp add: disconnect_def)
  qed
next
  case (Sweep m now)
  show ?thesis
    unfolding Sweep using assms set_sessionsAfter_subset[of "manager w" m now]
    by (auto simp: bound_def)
qed

lemma run_bound: "bound w \<Longrightarrow> bound (run w evs)"
  by (induction evs arbitrary: w) (simp_all add: step_bound)

lemma bound_registryOpen: "bound w \<Longrightarrow> registryOpen w"
  by (force simp: bound_def registryOpen_def list_all_iff)

lemma disconnect_removes:
  "x \<in> set (listenersOf h w) \<Longrightarrow> \<not> validateSession (manager (step w (Disconnect h))) x"
  by (simp add: disconnect_def validateSession_def map_of_fold_delete)

lemma delete_keeps_streams:
  "reqMethod req = ''DELETE'' \<Longrightarrow> openStreams (step w (Request req h e)) = openStreams w"
  by (simp add: openStreams_step_Request openStreams_app_cases)

subsection \<open>Keys of the registry along a history\<close>

lemma update_fresh: "k \<notin> fst ` set al \<Longrightarrow> AList.update k v al = al @ [(k, v)]"
  by (induction al) auto

lemma fold_delete_filter:
  "fold (\<lambda>k sm. deleteSession sm k) ks sm = filter (\<lambda>p. fst p \<notin> set ks) sm"
proof (induction ks arbitrary: sm)
  case Nil
  show ?case by simp
next
  case (Cons k ks)
  have "filter (\<lambda>p. fst p \<notin> set ks) (AList.delete k sm) = filter (\<lambda>p. fst p \<notin> set (k # ks)) sm"
    by (induction sm) (auto simp: AList.delete_eq)
  then show ?case using Cons.IH by (simp add: deleteSession_eq)
qed

lemma keys_all_valid: "filter (validateSession sm) (map fst sm) = map fst sm"
proof -
  have "\<forall>k \<in> set (map fst sm). validateSession sm k"
    by (auto simp: validateSession_def map_of_eq_None_iff)
  then show ?thesis by (simp only: filter_True)
qed

lemma keys_after_filter:
  assumes "distinct (map fst sm)"
  shows "filter (validateSession (filter Q sm)) (map fst sm) = map fst (filter Q sm)"
proof -
  have "filter (\<lambda>p. validateSession (filter Q sm) (fst p)) sm = filter Q sm"
  proof (rule filter_cong[OF refl])
    fix p assume p: "p \<in> set sm"
    with assms have "map_of sm (fst p) = Some (snd p)" by simp
    then show "validateSession (filter Q sm) (fst p) = Q p"
      by (simp add: validateSession_def map_of_filter_distinct[OF assms])
  qed
  then show ?thesis by (simp add: filter_map o_def)
qed

lemma keys_after_update:
  assumes "map_of sm x = Some s"
  shows "filter (validateSession (AList.update x v sm)) (map fst sm)
           = map fst (AList.update x v sm)"
proof -
  have k: "map fst (AList.update x v sm) = map fst sm"
    by (rule map_fst_update_present[OF assms])
  show ?thesis using keys_all_valid[of "AList.update x v sm"] unfolding k .
qed

lemma delete_as_filter: "AList.delete x sm = filter (\<lambda>p. fst p \<noteq> x) sm"
  by (induction sm) (auto simp: AList.delete_eq)

lemma step_keys:
  assumes d: "distinct (map fst (manager w))"
    and f: "callsGenerator ev \<Longrightarrow> \<not> validateSession (manager w) (generated ev)"
  shows "filter (validateSession (manager (step w ev)))
           (case issuedId w ev of None \<Rightarrow> map fst (manager w)
            | Some x \<Rightarrow> map fst (manager w) @ [x])
         = map fst (manager (step w ev))"
proof (cases ev)
  case (Request req h e)
  show ?thesis
  proof (cases "closeAfterRead req")
    case True
    then have g: "reqMethod req = ''GET'' \<and> bodyOutcome req = Parsed"
      by (simp add: closeAfterRead_def)
    with f Request have fr: "uuid e \<notin> fst ` set (manager w)"
      by (simp add: callsGenerator_def generated_def validateSession_def map_of_eq_None_iff)
    then have m: "manager (step w ev) = manager w"
      using True Request by (simp add: manager_step_Request)
    from fr have "\<not> validateSession (manager w) (uuid e)"
      by (simp add: validateSession_def map_of_eq_None_iff)
    then show ?thesis
      using g Request m keys_all_valid[of "manager w"] by (simp add: issuedId_Request)
  next
    case plain: False
    then have st: "manager (step w ev) = manager (snd (app req h e w))"
      using Request by (simp add: manager_step_Request)
    show ?thesis
    proof (cases "reqMethod req = ''GET'' \<and> bodyOutcome req = Parsed")
      case True
      with f Request have "uuid e \<notin> fst ` set (manager w)"
        by (simp add: callsGenerator_def generated_def validateSession_def map_of_eq_None_iff)
      then have m: "manager (step w ev) = manager w @ [(uuid e,
          \<lparr>id_field = uuid e, response = h, createdAt = date1 e, lastActivity = date2 e\<rparr>)]"
        using True st by (simp add: manager_app_cases createSession_def update_fresh)
      have "filter (validateSession (manager (step w ev))) (map fst (manager (step w ev)))
              = map fst (manager (step w ev))"
        by (rule keys_all_valid)
      then show ?thesis using True Request m by (simp add: issuedId_Request)
    next
      case False
      then have i: "issuedId w ev = None" using Request by (simp add: issuedId_Request)
      have "filter (validateSession (manager (snd (app req h e w)))) (map fst (manager w))
              = map fst (manager (snd (app req h e w)))"
        unfolding manager_app_cases post_manager delete_manager
        using False keys_all_valid[of "manager w"] keys_after_filter[OF d]
        by (auto simp: delete_as_filter keys_all_valid keys_after_update
            split: body_outcome.splits option.splits)
      then show ?thesis using i st by simp
    qed
  qed
next
  case (Disconnect h)
  show ?thesis
    unfolding Disconnect
    by (simp add: issuedId_def disconnect_def fold_delete_filter keys_after_filter[OF d])
next
  case (Sweep m now)
  show ?thesis
    unfolding Sweep
    by (simp add: issuedId_def sessionsAfter_cleanupStale[OF d] keys_after_filter[OF d])
qed

lemma issuedLive_keys:
  assumes "distinct (map fst (manager w))" and "freshGenerator w evs"
  shows "issuedLive w (map fst (manager w)) evs = map fst (manager (run w evs))"
  using assms
proof (induction evs arbitrary: w)
  case Nil
  show ?case by simp
next
  case (Cons ev evs)
  from Cons.prems have f: "callsGenerator ev \<Longrightarrow> \<not> validateSession (manager w) (generated ev)"
    and fr: "freshGenerator (step w ev) evs" by (simp_all split: if_splits)
  have d: "distinct (map fst (manager (step w ev)))" by (rule step_distinct[OF Cons.prems(1)])
  show ?case
    using Cons.IH[OF d fr] step_keys[OF Cons.prems(1) f] by simp
qed

subsection \<open>Keeping a session alive\<close>

lemma cadence_nextTouch:
  "cadence x hx maxAge prev evs \<Longrightarrow> nextTouch x evs = Some t \<Longrightarrow> t - prev < maxAge"
proof (induction evs)
  case Nil
  then show ?case by simp
next
  case (Cons ev evs)
  show ?case
  proof (cases "touches ev x")
    case True
    with Cons.prems show ?thesis by simp
  next
    case False
    with Cons.prems have "cadence x hx maxAge prev evs" "nextTouch x evs = Some t" by simp_all
    then show ?thesis by (rule Cons.IH)
  qed
qed

lemma keeps_touch:
  assumes k: "keeps w x hx prev" and t: "touches ev x" and x: "x \<noteq> []"
  shows "keeps (step w ev) x hx (eventTime ev)"
proof -
  from t obtain req h e where ev: "ev = Request req h e"
    and r: "reqMethod req = ''POST''" "bodyOutcome req = Parsed" "extractSessionId req = Some x"
    by (cases ev) (auto simp: touches_def)
  from k obtain s where s: "map_of (manager w) x = Some s" by (auto simp: keeps_def)
  have m: "manager (step w ev) = AList.update x (s\<lparr>lastActivity := date1 e\<rparr>) (manager w)"
    using ev r s x
    by (simp add: manager_step_Request closeAfterRead_def manager_app_cases post_manager)
  have o: "openStreams (step w ev) = openStreams w"
    using ev r by (simp add: openStreams_step_Request openStreams_app_cases)
  show ?thesis
    using k unfolding keeps_def m o
    by (auto simp: AList.distinct_update AList.update_conv' ev eventTime_def)
qed

lemma keeps_other_request:
  assumes k: "keeps w x hx prev" and x: "x \<noteq> []"
    and nt: "\<not> touches (Request req h e) x"
    and nd: "\<not> terminates (Request req h e) x"
    and ng: "\<not> (callsGenerator (Request req h e) \<and> generated (Request req h e) = x)"
  shows "keeps (step w (Request req h e)) x hx prev"
proof -
  from k have d: "distinct (map fst (manager w))" by (simp add: keeps_def)
  have d': "distinct (map fst (manager (step w (Request req h e))))"
    by (rule step_distinct[OF d])
  have same: "map_of (manager (step w (Request req h e))) x = map_of (manager w) x"
    using nt nd ng x
    unfolding manager_step_Request manager_app_cases post_manager delete_manager
    by (auto simp: touches_def terminates_def callsGenerator_def generated_def createSession_def
        closeAfterRead_def AList.update_conv' AList.delete_conv'
        split: body_outcome.splits option.splits)
  have str: "\<forall>q \<in> set (openStreams (step w (Request req h e))). snd q = x \<longrightarrow> fst q = hx"
    using k ng unfolding openStreams_step_Request openStreams_app_cases
    by (auto simp: keeps_def callsGenerator_def generated_def)
  from k have "\<exists>s. map_of (manager w) x = Some s \<and> lastActivity s = prev"
    unfolding keeps_def by blast
  then have "\<exists>s. map_of (manager (step w (Request req h e))) x = Some s \<and> lastActivity s = prev"
    by (simp only: same)
  with d' str show ?thesis unfolding keeps_def by blast
qed

lemma keeps_disconnect:
  assumes k: "keeps w x hx prev" and h: "h \<noteq> hx"
  shows "keeps (step w (Disconnect h)) x hx prev"
proof -
  from k have d: "distinct (map fst (manager w))" by (simp add: keeps_def)
  have d': "distinct (map fst (manager (step w (Disconnect h))))"
    by (rule step_distinct[OF d])
  have "x \<notin> set (listenersOf h w)"
    using k h by (auto simp: keeps_def listenersOf_def)
  then have same: "map_of (manager (step w (Disconnect h))) x = map_of (manager w) x"
    by (simp add: disconnect_def map_of_fold_delete)
  have str: "\<forall>q \<in> set (openStreams (step w (Disconnect h))). snd q = x \<longrightarrow> fst q = hx"
    using k by (auto simp: keeps_def disconnect_def)
  from k have "\<exists>s. map_of (manager w) x = Some s \<and> lastActivity s = prev"
    unfolding keeps_def by blast
  then have "\<exists>s. map_of (manager (step w (Disconnect h))) x = Some s \<and> lastActivity s = prev"
    by (simp only: same)
  with d' str show ?thesis unfolding keeps_def by blast
qed

lemma keeps_sweep:
  assumes k: "keeps w x hx prev" and fresh: "now - prev \<le> maxAge"
  shows "keeps (step w (Sweep maxAge now)) x hx prev"
proof -
  from k have d: "distinct (map fst (manager w))" by (simp add: keeps_def)
  have d': "distinct (map fst (manager (step w (Sweep maxAge now))))"
    by (rule step_distinct[OF d])
  from k obtain s where s: "map_of (manager w) x = Some s" "lastActivity s = prev"
    by (auto simp: keeps_def)
  have same: "map_of (manager (step w (Sweep maxAge now))) x = Some s"
    using s fresh by (simp add: sessionsAfter_cleanupStale[OF d] map_of_filter_distinct[OF d])
  have str: "\<forall>q \<in> set (openStreams (step w (Sweep maxAge now))). snd q = x \<longrightarrow> fst q = hx"
    using k by (auto simp: keeps_def)
  from same s(2)
  have "\<exists>s. map_of (manager (step w (Sweep maxAge now))) x = Some s \<and> lastActivity s = prev"
    by blast
  with d' str show ?thesis unfolding keeps_def by blast
qed

lemma keeps_valid: "keeps w x hx prev \<Longrightarrow> validateSession (manager w) x"
  by (auto simp: keeps_def validateSession_def)

lemma cadence_worlds:
  assumes "keeps w x hx prev" and "x \<noteq> []" and "cadence x hx maxAge prev evs"
  shows "list_all (\<lambda>w'. validateSession (manager w') x) (worlds w evs)"
  using assms
proof (induction evs arbitrary: w prev)
  case Nil
  then show ?case by (simp add: keeps_valid)
next
  case (Cons ev evs)
  have v: "validateSession (manager w) x" by (rule keeps_valid[OF Cons.prems(1)])
  show ?case
  proof (cases "touches ev x")
    case True
    with Cons.prems have c: "cadence x hx maxAge (eventTime ev) evs" by simp
    have "keeps (step w ev) x hx (eventTime ev)"
      by (rule keeps_touch[OF Cons.prems(1) True Cons.prems(2)])
    from Cons.IH[OF this Cons.prems(2) c] v show ?thesis by simp
  next
    case False
    with Cons.prems have c: "cadence x hx maxAge prev evs" by simp
    have "keeps (step w ev) x hx prev"
    proof (cases ev)
      case (Request req h e)
      with Cons.prems(3) False
      have "\<not> terminates (Request req h e) x"
        "\<not> (callsGenerator (Request req h e) \<and> generated (Request req h e) = x)"
        by simp_all
      with False Request show ?thesis
        using keeps_other_request[OF Cons.prems(1) Cons.prems(2)] by simp
    next
      case (Disconnect h)
      with Cons.prems(3) False have "h \<noteq> hx" by simp
      with Disconnect show ?thesis using keeps_disconnect[OF Cons.prems(1)] by simp
    next
      case (Sweep m now)
      with Cons.prems(3) False obtain t where m: "m = maxAge"
        and t: "nextTouch x evs = Some t" "now \<le> t"
        by (auto split: option.splits)
      from cadence_nextTouch[OF c t(1)] t(2) have "now - prev \<le> maxAge" by simp
      with Sweep m show ?thesis using keeps_sweep[OF Cons.prems(1)] by simp
    qed
    from Cons.IH[OF this Cons.prems(2) c] v show ?thesis by simp
  qed
qed

subsection \<open>Validity of identifiers\<close>

text \<open>
  At the handler, a message request that carries a non-empty identifier \<open>x\<close> is accepted
  exactly when \<open>x\<close> is a key of the registry, and is answered with status 401 and code
  -32001 when it is not.  Along a history in which no stream-establish has its body
  read, the keys of the registry are the identifiers that were returned and not removed
  since by a terminate request, a disconnect or a sweep.
\<close>

lemma post_accepted_iff_registered:
  assumes "extractSessionId req = Some x" and "x \<noteq> []"
  shows "(status (fst (handlePostMcp req res sm now)) = 202
           \<and> body (fst (handlePostMcp req res sm now)) = JsonBody (JObject [(''accepted'', JBool True)]))
          = validateSession sm x"
  using assms
  by (auto simp: handlePostMcp_def Let_def validateSessionIdHeader_def getSession_def
      validateSession_def sendJsonRpcError_def sendJson_def split: option.splits)

lemma post_unknown_unauthorized:
  assumes "extractSessionId req = Some x" and "x \<noteq> []" and "\<not> validateSession sm x"
  shows "handlePostMcp req res sm now =
           (res\<lparr>status := 401,
                body := JsonBody (JObject
                   [(''jsonrpc'', JString ''2.0''),
                    (''error'', JObject
                       [(''code'', JNumber (- 32001)),
                        (''message'', JString ''Unauthorized: Invalid or expired session ID'')])]),
                ended := True\<rparr>,
            sm)"
  using assms
  by (auto simp: handlePostMcp_def Let_def validateSessionIdHeader_def getSession_def
      validateSession_def sendJsonRpcError_def sendJson_def createJsonRpcError_def
      UNAUTHORIZED_def split: option.splits)

lemma live_iff_registered:
  assumes "list_all (\<lambda>ev. \<not> closesAtOnce ev) evs"
  shows "validateSession (manager (run initial evs)) x = liveAfter initial False x evs"
  using liveAfter_presence[of initial evs x] assms
  by (simp add: initial_def validateSession_def)

text \<open>
  Claim C1.  A message request carrying identifier \<open>x\<close> is to be accepted exactly when a
  stream-establish returned \<open>x\<close> and no terminate, disconnect or expiry sweep has removed
  it since.  The code does not do this for a stream-establish that carries a JSON body:
  the request returns \<open>s1\<close> in its \<^verbatim>\<open>Mcp-Session-Id\<close> header, no terminate, disconnect
  or sweep follows, so \<open>s1\<close> is live in the sense of the claim, and yet the registry is
  empty and the message request with \<open>s1\<close> is answered with status 401 and code -32001.
\<close>

theorem establish_with_body_not_accepted:
  "issuedId initial (Request getWithBody 1 (mkEnv ''s1'' 0)) = Some ''s1''
   \<and> liveAfter initial False ''s1'' [Request getWithBody 1 (mkEnv ''s1'' 0)]
   \<and> manager (run initial [Request getWithBody 1 (mkEnv ''s1'' 0)]) = []
   \<and> handlePostMcp (mkRequest ''POST'' (Some ''s1'')) freshResponse
        (manager (run initial [Request getWithBody 1 (mkEnv ''s1'' 0)])) 5 =
        (\<lparr>status = 401, headers = [],
          body = JsonBody (JObject
                   [(''jsonrpc'', JString ''2.0''),
                    (''error'', JObject
                       [(''code'', JNumber (- 32001)),
                        (''message'', JString ''Unauthorized: Invalid or expired session ID'')])]),
          ended = True\<rparr>,
         [])"
proof -
  have i: "issuedId initial (Request getWithBody 1 (mkEnv ''s1'' 0)) = Some ''s1''"
    by (simp add: issuedId_Request getWithBody_def mkEnv_def)
  have l: "liveAfter initial False ''s1'' [Request getWithBody 1 (mkEnv ''s1'' 0)]"
    using i by simp
  have m: "manager (run initial [Request getWithBody 1 (mkEnv ''s1'' 0)]) = []"
    by (simp add: manager_step_Request closeAfterRead_def getWithBody_def mkEnv_def initial_def)
  have p: "handlePostMcp (mkRequest ''POST'' (Some ''s1'')) freshResponse [] 5 =
        (\<lparr>status = 401, headers = [],
          body = JsonBody (JObject
                   [(''jsonrpc'', JString ''2.0''),
                    (''error'', JObject
                       [(''code'', JNumber (- 32001)),
                        (''message'', JString ''Unauthorized: Invalid or expired session ID'')])]),
          ended = True\<rparr>,
         [])"
    by (simp add: handlePostMcp_def Let_def extractSessionId_def mkRequest_def
        validateSessionIdHeader_def getSession_def sendJsonRpcError_def sendJson_def
        createJsonRpcError_def UNAUTHORIZED_def freshResponse_def)
  show ?thesis unfolding m by (intro conjI i l refl p)
qed

subsection \<open>The expiry sweep\<close>

text \<open>
  Claim C2 (amended).  On a registry (distinct keys), \<^verbatim>\<open>cleanupStale(maxAge)\<close> at time
  \<open>now\<close> removes exactly the sessions with \<open>now - lastActivity > maxAge\<close> and keeps every
  other session, in order; it counts the removed sessions in \<open>cleanedCount\<close>, which is the
  number of sessions removed and is written to the console when positive; the function
  itself returns no value (\<open>undefined\<close>).
\<close>

theorem cleanupStale_sweep:
  assumes "distinct (map fst sm)"
  shows "sessionsAfter (cleanupStale sm maxAge now)
           = filter (\<lambda>p. \<not> (now - lastActivity (snd p) > maxAge)) sm
       \<and> cleanedCount (cleanupStale sm maxAge now)
           = length (filter (\<lambda>p. now - lastActivity (snd p) > maxAge) sm)
       \<and> cleanedCount (cleanupStale sm maxAge now)
           = length sm - length (sessionsAfter (cleanupStale sm maxAge now))
       \<and> consoleCount (cleanupStale sm maxAge now)
           = (if cleanedCount (cleanupStale sm maxAge now) > 0
              then Some (cleanedCount (cleanupStale sm maxAge now)) else None)
       \<and> returned (cleanupStale sm maxAge now) = Undefined"
proof -
  let ?P = "\<lambda>p. now - lastActivity (snd p) > maxAge"
  have loop: "cleanupLoop now maxAge sm sm 0 = (filter (\<lambda>p. \<not> ?P p) sm, length (filter ?P sm))"
    unfolding cleanupLoop_filter filter_stale_keys[OF assms] by simp
  have len: "length sm = length (filter ?P sm) + length (filter (\<lambda>p. \<not> ?P p) sm)"
    by (rule sum_length_filter_compl[symmetric])
  show ?thesis
    unfolding cleanupStale_def loop using len by simp
qed

theorem cleanupStale_sweep_witness:
  "distinct (map fst [(''a'', mkSession ''a'' 1 0), (''b'', mkSession ''b'' 2 95)])
   \<and> sessionsAfter (cleanupStale [(''a'', mkSession ''a'' 1 0), (''b'', mkSession ''b'' 2 95)] 10 100)
       = [(''b'', mkSession ''b'' 2 95)]
   \<and> cleanedCount (cleanupStale [(''a'', mkSession ''a'' 1 0), (''b'', mkSession ''b'' 2 95)] 10 100)
       = 1"
proof -
  have d: "distinct (map fst [(''a'', mkSession ''a'' 1 0), (''b'', mkSession ''b'' 2 95)])"
    by simp
  from cleanupStale_sweep[OF d, of 10 100] d show ?thesis
    by (simp add: mkSession_def)
qed

text \<open>
  The claim as stated has the sweep return the number of removed sessions.  With one
  stale session in the registry one session is removed, and the value returned is
  \<open>undefined\<close>, not 1.
\<close>

theorem cleanupStale_returns_count_counterexample:
  "returned (cleanupStale [(''a'', mkSession ''a'' 1 0)] 10 100)
   \<noteq> Number (int (length [(''a'', mkSession ''a'' 1 0)])
        - int (length (sessionsAfter (cleanupStale [(''a'', mkSession ''a'' 1 0)] 10 100))))"
  by (simp add: cleanupStale_def)

subsection \<open>Rejection of a missing identifier\<close>

text \<open>
  Claim C4.  A message request whose identifier header is absent, and equally one whose
  identifier header is the empty string, is answered with status 400 and the
  INVALID_REQUEST envelope (code -32600); the answer does not depend on the registry,
  which is returned as it was, so no lookup takes place.
\<close>

theorem missing_or_empty_identifier_rejected:
  assumes "extractSessionId req = None \<or> extractSessionId req = Some []"
  shows "handlePostMcp req res sm now =
     (res\<lparr>status := 400,
          body := JsonBody (JObject
            [(''jsonrpc'', JString ''2.0''),
             (''error'', JObject
                [(''code'', JNumber (- 32600)),
                 (''message'', JString ''Bad Request: Missing Mcp-Session-Id header'')])]),
          ended := True\<rparr>,
      sm)"
  using assms
  by (auto simp: handlePostMcp_def validateSessionIdHeader_def sendJsonRpcError_def sendJson_def
      createJsonRpcError_def INVALID_REQUEST_def)

theorem missing_or_empty_identifier_rejected_witness:
  "extractSessionId (mkRequest ''POST'' (Some [])) = Some []
   \<and> extractSessionId (mkRequest ''POST'' None) = None
   \<and> handlePostMcp (mkRequest ''POST'' (Some [])) freshResponse [(''s1'', mkSession ''s1'' 1 0)] 5
       = handlePostMcp (mkRequest ''POST'' None) freshResponse [(''s1'', mkSession ''s1'' 1 0)] 5
   \<and> status (fst (handlePostMcp (mkRequest ''POST'' (Some [])) freshResponse
         [(''s1'', mkSession ''s1'' 1 0)] 5)) = 400"
proof -
  have h1: "extractSessionId (mkRequest ''POST'' (Some [])) = Some []"
    by (simp add: extractSessionId_def mkRequest_def)
  have h2: "extractSessionId (mkRequest ''POST'' None) = None"
    by (simp add: extractSessionId_def mkRequest_def)
  from missing_or_empty_identifier_rejected[OF disjI2[OF h1], of freshResponse
         "[(''s1'', mkSession ''s1'' 1 0)]" 5]
       missing_or_empty_identifier_rejected[OF disjI1[OF h2], of freshResponse
         "[(''s1'', mkSession ''s1'' 1 0)]" 5] h1 h2
  show ?thesis by simp
qed

subsection \<open>Termination of a session\<close>

text \<open>
  Claim C5.  The terminate handler answers every request with status 204 and writes no
  body, whatever identifier the request carries and whatever the registry holds; a
  second invocation with the same request gives the same answer and the same registry
  as the first; an identifier that the registry does not hold, or an absent one, leaves
  the registry unchanged.
\<close>

theorem terminate_idempotent_total:
  "fst (handleDeleteMcp req res sm) = res\<lparr>status := 204, ended := True\<rparr>
   \<and> body (fst (handleDeleteMcp req (configureCors freshResponse) sm)) = NoBody
   \<and> handleDeleteMcp req res (snd (handleDeleteMcp req res sm)) = handleDeleteMcp req res sm
   \<and> (\<forall>x. extractSessionId req = Some x \<and> map_of sm x = None
          \<longrightarrow> snd (handleDeleteMcp req res sm) = sm)
   \<and> (extractSessionId req = None \<longrightarrow> snd (handleDeleteMcp req res sm) = sm)"
  by (auto simp: handleDeleteMcp_def Let_def deleteSession_eq AList.delete_idem configureCors_def
      setHeader_def freshResponse_def map_of_eq_None_iff split: option.splits)

theorem terminate_idempotent_total_witness:
  "extractSessionId (mkRequest ''DELETE'' (Some ''ghost'')) = Some ''ghost''
   \<and> map_of [(''s1'', mkSession ''s1'' 1 0)] ''ghost'' = None
   \<and> snd (handleDeleteMcp (mkRequest ''DELETE'' (Some ''ghost'')) freshResponse
        [(''s1'', mkSession ''s1'' 1 0)]) = [(''s1'', mkSession ''s1'' 1 0)]
   \<and> extractSessionId (mkRequest ''DELETE'' None) = None
   \<and> snd (handleDeleteMcp (mkRequest ''DELETE'' None) freshResponse
        [(''s1'', mkSession ''s1'' 1 0)]) = [(''s1'', mkSession ''s1'' 1 0)]
   \<and> status (fst (handleDeleteMcp (mkRequest ''DELETE'' (Some ''ghost'')) freshResponse
        [(''s1'', mkSession ''s1'' 1 0)])) = 204"
proof -
  have h1: "extractSessionId (mkRequest ''DELETE'' (Some ''ghost'')) = Some ''ghost''"
    by (simp add: extractSessionId_def mkRequest_def)
  have h2: "map_of [(''s1'', mkSession ''s1'' 1 0)] ''ghost'' = None" by simp
  have h3: "extractSessionId (mkRequest ''DELETE'' None) = None"
    by (simp add: extractSessionId_def mkRequest_def)
  from terminate_idempotent_total[of "mkRequest ''DELETE'' (Some ''ghost'')" freshResponse
         "[(''s1'', mkSession ''s1'' 1 0)]"]
       terminate_idempotent_total[of "mkRequest ''DELETE'' None" freshResponse
         "[(''s1'', mkSession ''s1'' 1 0)]"] h1 h2 h3
  show ?thesis by simp
qed

subsection \<open>Shape of the failure envelope\<close>

text \<open>
  Claim C6.  Every answer of the message handler that is not the acceptance, that is
  every failure for a missing and for an unknown identifier, has as its body an object
  with exactly the members \<open>jsonrpc\<close> (the string 2.0) and \<open>error\<close>, the latter with
  exactly the members \<open>code\<close> (an integer) and \<open>message\<close> (a string).
\<close>

theorem envelope_stability:
  assumes "status (fst (handlePostMcp req res sm now)) \<noteq> 202"
  shows "\<exists>c m. body (fst (handlePostMcp req res sm now)) =
           JsonBody (JObject
             [(''jsonrpc'', JString ''2.0''),
              (''error'', JObject [(''code'', JNumber c), (''message'', JString m)])])"
  using assms
  by (auto simp: handlePostMcp_def Let_def sendJsonRpcError_def sendJson_def
      createJsonRpcError_def getSession_def split: option.splits)

theorem envelope_stability_witness:
  "status (fst (handlePostMcp (mkRequest ''POST'' (Some ''ghost'')) freshResponse [] 5)) \<noteq> 202
   \<and> (\<exists>c m. body (fst (handlePostMcp (mkRequest ''POST'' (Some ''ghost'')) freshResponse [] 5)) =
           JsonBody (JObject
             [(''jsonrpc'', JString ''2.0''),
              (''error'', JObject [(''code'', JNumber c), (''message'', JString m)])]))"
proof -
  have h: "status (fst (handlePostMcp (mkRequest ''POST'' (Some ''ghost'')) freshResponse [] 5)) \<noteq> 202"
    by (simp add: handlePostMcp_def Let_def extractSessionId_def mkRequest_def
        validateSessionIdHeader_def getSession_def sendJsonRpcError_def sendJson_def)
  from envelope_stability[OF h] h show ?thesis by blast
qed

subsection \<open>Malformed bodies\<close>

text \<open>
  Claim C9.  A message request whose body fails JSON parsing (the body parser passes on
  a \<open>SyntaxError\<close> that carries the raw body) is answered by the parse-error middleware
  with status 400 and the INVALID_REQUEST envelope (code -32600), of the same shape as
  for a missing identifier; the endpoint handler is not reached: the answer is the same
  for every identifier header, and the server state is unchanged.
\<close>

theorem malformed_body_rejected:
  assumes "reqMethod req = ''POST''" and "bodyOutcome req = ParseFailed err"
    and "isSyntaxError err" and "hasBodyProperty err"
  shows "app req h e w =
     (\<lparr>status = 400, headers = corsHeaders,
       body = JsonBody (JObject
            [(''jsonrpc'', JString ''2.0''),
             (''error'', JObject
                [(''code'', JNumber (- 32600)),
                 (''message'', JString ''Bad Request: Malformed JSON'')])]),
       ended = True\<rparr>,
      w)"
  using assms
  by (simp add: app_def Let_def jsonErrorMiddleware_def sendJsonRpcError_def sendJson_def
      createJsonRpcError_def INVALID_REQUEST_def configureCors_def setHeader_def
      freshResponse_def corsHeaders_def)

theorem malformed_body_rejected_witness:
  "status (fst (app \<lparr>reqMethod = ''POST'', reqHeaders = [(''mcp-session-id'', ''ghost'')],
                    bodyOutcome = ParseFailed \<lparr>isSyntaxError = True, hasBodyProperty = True, errStatus = Some 400\<rparr>,
          jsonBodyRead = True\<rparr>
             7 (mkEnv ''u'' 5) initial)) = 400"
  using malformed_body_rejected
    [of "\<lparr>reqMethod = ''POST'', reqHeaders = [(''mcp-session-id'', ''ghost'')],
          bodyOutcome = ParseFailed \<lparr>isSyntaxError = True, hasBodyProperty = True, errStatus = Some 400\<rparr>,
          jsonBodyRead = True\<rparr>"
        "\<lparr>isSyntaxError = True, hasBodyProperty = True, errStatus = Some 400\<rparr>" 7 "mkEnv ''u'' 5" initial]
  by simp

subsection \<open>Frame of a message request\<close>

text \<open>
  Claim C10.  A message request that is rejected, for a missing or empty identifier or
  for an unknown one, returns the registry exactly as it was.  An accepted message
  request for identifier \<open>x\<close> changes the \<open>lastActivity\<close> field of the session stored
  under \<open>x\<close> and nothing else: that session keeps its id, its stream handle and its
  creation time, every other key is mapped as before, and the keys of the registry and
  their order are the same.
\<close>

theorem message_frame:
  "(\<not> validateSessionIdHeader (extractSessionId req)
      \<longrightarrow> snd (handlePostMcp req res sm now) = sm)
   \<and> (\<forall>x. extractSessionId req = Some x \<and> map_of sm x = None
      \<longrightarrow> snd (handlePostMcp req res sm now) = sm)
   \<and> (\<forall>x s. extractSessionId req = Some x \<and> x \<noteq> [] \<and> map_of sm x = Some s
      \<longrightarrow> map_of (snd (handlePostMcp req res sm now)) x = Some (s\<lparr>lastActivity := now\<rparr>)
          \<and> id_field (s\<lparr>lastActivity := now\<rparr>) = id_field s
          \<and> response (s\<lparr>lastActivity := now\<rparr>) = response s
          \<and> createdAt (s\<lparr>lastActivity := now\<rparr>) = createdAt s
          \<and> (\<forall>y. y \<noteq> x \<longrightarrow> map_of (snd (handlePostMcp req res sm now)) y = map_of sm y)
          \<and> map fst (snd (handlePostMcp req res sm now)) = map fst sm)"
  by (auto simp: handlePostMcp_def Let_def validateSessionIdHeader_def getSession_def
      AList.update_conv' map_fst_update_present split: option.splits)

theorem message_frame_witness:
  "\<not> validateSessionIdHeader (extractSessionId (mkRequest ''POST'' None))
   \<and> snd (handlePostMcp (mkRequest ''POST'' None) freshResponse
            [(''s1'', mkSession ''s1'' 1 0), (''s2'', mkSession ''s2'' 2 3)] 5)
       = [(''s1'', mkSession ''s1'' 1 0), (''s2'', mkSession ''s2'' 2 3)]
   \<and> extractSessionId (mkRequest ''POST'' (Some ''ghost'')) = Some ''ghost''
   \<and> map_of [(''s1'', mkSession ''s1'' 1 0), (''s2'', mkSession ''s2'' 2 3)] ''ghost'' = None
   \<and> snd (handlePostMcp (mkRequest ''POST'' (Some ''ghost'')) freshResponse
            [(''s1'', mkSession ''s1'' 1 0), (''s2'', mkSession ''s2'' 2 3)] 5)
       = [(''s1'', mkSession ''s1'' 1 0), (''s2'', mkSession ''s2'' 2 3)]
   \<and> extractSessionId (mkRequest ''POST'' (Some ''s1'')) = Some ''s1'' \<and> ''s1'' \<noteq> []
   \<and> map_of [(''s1'', mkSession ''s1'' 1 0), (''s2'', mkSession ''s2'' 2 3)] ''s1''
       = Some (mkSession ''s1'' 1 0)
   \<and> map_of (snd (handlePostMcp (mkRequest ''POST'' (Some ''s1'')) freshResponse
            [(''s1'', mkSession ''s1'' 1 0), (''s2'', mkSession ''s2'' 2 3)] 5)) ''s1''
       = Some ((mkSession ''s1'' 1 0)\<lparr>lastActivity := 5\<rparr>)
   \<and> map_of (snd (handlePostMcp (mkRequest ''POST'' (Some ''s1'')) freshResponse
            [(''s1'', mkSession ''s1'' 1 0), (''s2'', mkSession ''s2'' 2 3)] 5)) ''s2''
       = Some (mkSession ''s2'' 2 3)"
proof -
  let ?sm = "[(''s1'', mkSession ''s1'' 1 0), (''s2'', mkSession ''s2'' 2 3)]"
  have h1: "\<not> validateSessionIdHeader (extractSessionId (mkRequest ''POST'' None))"
    by (simp add: validateSessionIdHeader_def extractSessionId_def mkRequest_def)
  have h2: "extractSessionId (mkRequest ''POST'' (Some ''ghost'')) = Some ''ghost''"
    by (simp add: extractSessionId_def mkRequest_def)
  have h3: "map_of ?sm ''ghost'' = None" by simp
  have h4: "extractSessionId (mkRequest ''POST'' (Some ''s1'')) = Some ''s1''"
    by (simp add: extractSessionId_def mkRequest_def)
  have h5: "map_of ?sm ''s1'' = Some (mkSession ''s1'' 1 0)" by simp
  have h6: "map_of ?sm ''s2'' = Some (mkSession ''s2'' 2 3)" by simp
  have h7: "''s2'' \<noteq> ''s1''" "''s1'' \<noteq> []" by simp_all
  have a: "snd (handlePostMcp (mkRequest ''POST'' None) freshResponse ?sm 5) = ?sm"
    by (rule message_frame[of "mkRequest ''POST'' None" freshResponse ?sm 5,
          THEN conjunct1, THEN mp, OF h1])
  have b: "snd (handlePostMcp (mkRequest ''POST'' (Some ''ghost'')) freshResponse ?sm 5) = ?sm"
    by (rule message_frame[of "mkRequest ''POST'' (Some ''ghost'')" freshResponse ?sm 5,
          THEN conjunct2, THEN conjunct1, THEN spec, THEN mp, OF conjI[OF h2 h3]])
  note c0 = message_frame[of "mkRequest ''POST'' (Some ''s1'')" freshResponse ?sm 5,
          THEN conjunct2, THEN conjunct2, THEN spec, THEN spec, THEN mp,
          OF conjI[OF h4 conjI[OF h7(2) h5]]]
  note c = c0[THEN conjunct1]
  note d = c0[THEN conjunct2, THEN conjunct2, THEN conjunct2, THEN conjunct2, THEN conjunct1,
          THEN spec, THEN mp, OF h7(1)]
  show ?thesis
    by (intro conjI h1 a h2 h3 b h4 h7 h5 c trans[OF d h6])
qed

subsection \<open>Coupling of registry and stream handles\<close>

text \<open>
  Claim C3 (amended).  The coupling holds from the stream to the registry: after every
  history no registry entry refers to a closed stream, because the disconnect of a
  stream removes from the registry every session whose listener is attached to it and
  closes the stream.  In the other direction nothing is released: the expiry sweep and
  the terminate request remove registry entries only and leave the set of open streams
  as it was.
\<close>

theorem stream_coupling:
  "registryOpen (run initial evs)
   \<and> (\<forall>x. x \<in> set (listenersOf h w) \<longrightarrow> \<not> validateSession (manager (step w (Disconnect h))) x)
   \<and> h \<notin> fst ` set (openStreams (step w (Disconnect h)))
   \<and> openStreams (step w (Sweep maxAge now)) = openStreams w
   \<and> (reqMethod req = ''DELETE'' \<longrightarrow> openStreams (step w (Request req h' e)) = openStreams w)"
proof -
  have "bound initial" by (simp add: bound_def initial_def)
  then have "registryOpen (run initial evs)" by (intro bound_registryOpen run_bound)
  moreover have "h \<notin> fst ` set (openStreams (step w (Disconnect h)))"
    by (auto simp: disconnect_def)
  ultimately show ?thesis
    using disconnect_removes[of _ h w] delete_keeps_streams[of req w h' e] by simp
qed

theorem stream_coupling_witness:
  "''s1'' \<in> set (listenersOf 1 \<lparr>manager = [(''s1'', mkSession ''s1'' 1 0)], openStreams = [(1, ''s1'')]\<rparr>)
   \<and> \<not> validateSession (manager (step
          \<lparr>manager = [(''s1'', mkSession ''s1'' 1 0)], openStreams = [(1, ''s1'')]\<rparr>
          (Disconnect 1))) ''s1''
   \<and> reqMethod (mkRequest ''DELETE'' (Some ''s1'')) = ''DELETE''
   \<and> openStreams (step \<lparr>manager = [(''s1'', mkSession ''s1'' 1 0)], openStreams = [(1, ''s1'')]\<rparr>
          (Request (mkRequest ''DELETE'' (Some ''s1'')) 2 (mkEnv ''u'' 1)))
       = openStreams \<lparr>manager = [(''s1'', mkSession ''s1'' 1 0)], openStreams = [(1, ''s1'')]\<rparr>"
proof -
  let ?w = "\<lparr>manager = [(''s1'', mkSession ''s1'' 1 0)], openStreams = [(1, ''s1'')]\<rparr>"
  have h1: "''s1'' \<in> set (listenersOf 1 ?w)" by (simp add: listenersOf_def)
  have h2: "reqMethod (mkRequest ''DELETE'' (Some ''s1'')) = ''DELETE''"
    by (simp add: mkRequest_def)
  note t = stream_coupling[where evs = "[]" and h = 1 and w = ?w and maxAge = 0 and now = 0
      and req = "mkRequest ''DELETE'' (Some ''s1'')" and h' = 2 and e = "mkEnv ''u'' 1"]
  note a = t[THEN conjunct2, THEN conjunct1, THEN spec, THEN mp, OF h1]
  note b = t[THEN conjunct2, THEN conjunct2, THEN conjunct2, THEN conjunct2, THEN mp, OF h2]
  show ?thesis by (intro conjI h1 a h2 b)
qed

text \<open>
  The claim as stated also has every open stream belong to a live session.  After a
  stream-establish that returns \<open>s1\<close> and a terminate request for \<open>s1\<close> the registry is
  empty and the stream is still open.
\<close>

lemma ex_world:
  "run initial [Request (mkRequest ''GET'' None) 1 (mkEnv ''s1'' 0),
                Request (mkRequest ''DELETE'' (Some ''s1'')) 2 (mkEnv ''u'' 1)]
   = \<lparr>manager = [], openStreams = [(1, ''s1'')]\<rparr>"
proof (rule world.equality)
  show "manager (run initial [Request (mkRequest ''GET'' None) 1 (mkEnv ''s1'' 0),
                Request (mkRequest ''DELETE'' (Some ''s1'')) 2 (mkEnv ''u'' 1)])
        = manager \<lparr>manager = [], openStreams = [(1, ''s1'')]\<rparr>"
    by (simp add: manager_step_Request closeAfterRead_def manager_app_cases delete_manager
          createSession_def extractSessionId_def mkRequest_def mkEnv_def initial_def)
  show "openStreams (run initial [Request (mkRequest ''GET'' None) 1 (mkEnv ''s1'' 0),
                Request (mkRequest ''DELETE'' (Some ''s1'')) 2 (mkEnv ''u'' 1)])
        = openStreams \<lparr>manager = [], openStreams = [(1, ''s1'')]\<rparr>"
    by (simp add: openStreams_step_Request closeAfterRead_def openStreams_app_cases
          mkRequest_def mkEnv_def initial_def)
qed simp

theorem stream_coupling_counterexample:
  "\<not> (registryOpen (run initial [Request (mkRequest ''GET'' None) 1 (mkEnv ''s1'' 0),
                Request (mkRequest ''DELETE'' (Some ''s1'')) 2 (mkEnv ''u'' 1)])
      \<and> streamsBound (run initial [Request (mkRequest ''GET'' None) 1 (mkEnv ''s1'' 0),
                Request (mkRequest ''DELETE'' (Some ''s1'')) 2 (mkEnv ''u'' 1)]))"
  unfolding ex_world by (simp add: streamsBound_def validateSession_def)

subsection \<open>Uniqueness of identifiers\<close>

text \<open>
  Claim C7.  If the generator never returns a key of the registry, then after every
  history from the initial state the identifiers returned by the stream-establish
  calls whose sessions are live are, call by call, exactly the keys of the registry in
  order, hence pairwise distinct; and a create with such an identifier appends a new
  entry and leaves every existing entry as it was.
\<close>

theorem identifiers_unique:
  "(freshGenerator initial evs \<longrightarrow>
      issuedLive initial [] evs = map fst (manager (run initial evs))
      \<and> distinct (issuedLive initial [] evs))
   \<and> (\<not> validateSession sm u \<longrightarrow>
      createSession sm res u t1 t2 =
        (sm @ [(u, \<lparr>id_field = u, response = res, createdAt = t1, lastActivity = t2\<rparr>)], u))"
proof -
  have "freshGenerator initial evs \<Longrightarrow>
          issuedLive initial [] evs = map fst (manager (run initial evs))"
    using issuedLive_keys[of initial evs] by (simp add: initial_def)
  moreover have "distinct (map fst (manager (run initial evs)))"
    by (rule run_distinct) (simp add: initial_def)
  moreover have "\<not> validateSession sm u \<Longrightarrow>
      createSession sm res u t1 t2 =
        (sm @ [(u, \<lparr>id_field = u, response = res, createdAt = t1, lastActivity = t2\<rparr>)], u)"
    by (simp add: createSession_def validateSession_def map_of_eq_None_iff update_fresh)
  ultimately show ?thesis by simp
qed

lemma example_fresh:
  "freshGenerator initial
     [Request (mkRequest ''GET'' None) 1 (mkEnv ''s1'' 0),
      Request (mkRequest ''GET'' None) 2 (mkEnv ''s2'' 3)]"
  by (simp add: callsGenerator_def generated_def validateSession_def manager_step_Request
        closeAfterRead_def manager_app_cases createSession_def mkRequest_def mkEnv_def
        initial_def)

lemma example_keys:
  "map fst (manager (run initial
     [Request (mkRequest ''GET'' None) 1 (mkEnv ''s1'' 0),
      Request (mkRequest ''GET'' None) 2 (mkEnv ''s2'' 3)])) = [''s1'', ''s2'']"
  by (simp add: manager_step_Request closeAfterRead_def manager_app_cases createSession_def
        mkRequest_def mkEnv_def initial_def)

theorem identifiers_unique_witness:
  "freshGenerator initial
     [Request (mkRequest ''GET'' None) 1 (mkEnv ''s1'' 0),
      Request (mkRequest ''GET'' None) 2 (mkEnv ''s2'' 3)]
   \<and> issuedLive initial []
     [Request (mkRequest ''GET'' None) 1 (mkEnv ''s1'' 0),
      Request (mkRequest ''GET'' None) 2 (mkEnv ''s2'' 3)] = [''s1'', ''s2'']
   \<and> \<not> validateSession [] ''s1''
   \<and> createSession [] 1 ''s1'' 0 0 = ([] @ [(''s1'',
        \<lparr>id_field = ''s1'', response = 1, createdAt = 0, lastActivity = 0\<rparr>)], ''s1'')"
proof -
  let ?E = "[Request (mkRequest ''GET'' None) 1 (mkEnv ''s1'' 0),
      Request (mkRequest ''GET'' None) 2 (mkEnv ''s2'' 3)]"
  have h2: "\<not> validateSession [] ''s1''" by (simp add: validateSession_def)
  note t = identifiers_unique[where evs = ?E and sm = "[]" and u = "''s1''" and res = 1
      and ?t1.0 = 0 and ?t2.0 = 0]
  note a = t[THEN conjunct1, THEN mp, OF example_fresh, THEN conjunct1]
  note b = t[THEN conjunct2, THEN mp, OF h2]
  show ?thesis by (intro conjI example_fresh trans[OF a example_keys] h2 b)
qed

subsection \<open>Activity refresh\<close>

text \<open>
  Claim C8.  A successful lookup returns and stores the session with \<open>lastActivity\<close> set
  to the current time.  Hence a session that receives message requests spaced less than
  \<open>maxAge\<close> apart stays in the registry through every world of the history: no sweep
  that runs while the cadence continues removes it.
\<close>

theorem activity_refresh:
  "(\<forall>s. map_of sm y = Some s \<longrightarrow>
       snd (getSession sm y now) = Some (s\<lparr>lastActivity := now\<rparr>)
       \<and> map_of (fst (getSession sm y now)) y = Some (s\<lparr>lastActivity := now\<rparr>)
       \<and> lastActivity (s\<lparr>lastActivity := now\<rparr>) = now)
   \<and> (x \<noteq> [] \<and> distinct (map fst (manager w))
       \<and> map_of (manager w) x = Some sx
       \<and> list_all (\<lambda>q. snd q \<noteq> x \<or> fst q = response sx) (openStreams w)
       \<and> cadence x (response sx) maxAge (lastActivity sx) evs
      \<longrightarrow> list_all (\<lambda>w'. validateSession (manager w') x) (worlds w evs))"
proof -
  have a: "\<forall>s. map_of sm y = Some s \<longrightarrow>
       snd (getSession sm y now) = Some (s\<lparr>lastActivity := now\<rparr>)
       \<and> map_of (fst (getSession sm y now)) y = Some (s\<lparr>lastActivity := now\<rparr>)
       \<and> lastActivity (s\<lparr>lastActivity := now\<rparr>) = now"
    by (simp add: getSession_def AList.update_conv')
  have b: "list_all (\<lambda>w'. validateSession (manager w') x) (worlds w evs)"
    if h: "x \<noteq> []" "distinct (map fst (manager w))" "map_of (manager w) x = Some sx"
      "list_all (\<lambda>q. snd q \<noteq> x \<or> fst q = response sx) (openStreams w)"
      "cadence x (response sx) maxAge (lastActivity sx) evs"
  proof -
    have "keeps w x (response sx) (lastActivity sx)"
      using h by (auto simp: keeps_def list_all_iff)
    then show ?thesis by (rule cadence_worlds[OF _ h(1) h(5)])
  qed
  from a b show ?thesis by blast
qed

lemma example_cadence:
  "cadence ''s1'' 1 10 0
     [Request (mkRequest ''POST'' (Some ''s1'')) 2 (mkEnv ''u'' 5),
      Sweep 10 12,
      Request (mkRequest ''POST'' (Some ''s1'')) 3 (mkEnv ''u'' 14),
      Sweep 10 20,
      Request (mkRequest ''POST'' (Some ''s1'')) 4 (mkEnv ''u'' 23)]"
  by (simp add: touches_def eventTime_def mkRequest_def mkEnv_def extractSessionId_def)

theorem activity_refresh_witness:
  "list_all (\<lambda>w'. validateSession (manager w') ''s1'')
     (worlds \<lparr>manager = [(''s1'', mkSession ''s1'' 1 0)], openStreams = [(1, ''s1'')]\<rparr>
        [Request (mkRequest ''POST'' (Some ''s1'')) 2 (mkEnv ''u'' 5),
         Sweep 10 12,
         Request (mkRequest ''POST'' (Some ''s1'')) 3 (mkEnv ''u'' 14),
         Sweep 10 20,
         Request (mkRequest ''POST'' (Some ''s1'')) 4 (mkEnv ''u'' 23)])"
proof -
  let ?w = "\<lparr>manager = [(''s1'', mkSession ''s1'' 1 0)], openStreams = [(1, ''s1'')]\<rparr>"
  have c: "cadence ''s1'' (response (mkSession ''s1'' 1 0)) 10 (lastActivity (mkSession ''s1'' 1 0))
     [Request (mkRequest ''POST'' (Some ''s1'')) 2 (mkEnv ''u'' 5),
      Sweep 10 12,
      Request (mkRequest ''POST'' (Some ''s1'')) 3 (mkEnv ''u'' 14),
      Sweep 10 20,
      Request (mkRequest ''POST'' (Some ''s1'')) 4 (mkEnv ''u'' 23)]"
    using example_cadence by (simp add: mkSession_def)
  have h: "''s1'' \<noteq> [] \<and> distinct (map fst (manager ?w))
       \<and> map_of (manager ?w) ''s1'' = Some (mkSession ''s1'' 1 0)
       \<and> list_all (\<lambda>q. snd q \<noteq> ''s1'' \<or> fst q = response (mkSession ''s1'' 1 0)) (openStreams ?w)
       \<and> cadence ''s1'' (response (mkSession ''s1'' 1 0)) 10 (lastActivity (mkSession ''s1'' 1 0))
     [Request (mkRequest ''POST'' (Some ''s1'')) 2 (mkEnv ''u'' 5),
      Sweep 10 12,
      Request (mkRequest ''POST'' (Some ''s1'')) 3 (mkEnv ''u'' 14),
      Sweep 10 20,
      Request (mkRequest ''POST'' (Some ''s1'')) 4 (mkEnv ''u'' 23)]"
    using c by (simp add: mkSession_def)
  show ?thesis
    by (rule activity_refresh[where x = "''s1''" and w = ?w and sx = "mkSession ''s1'' 1 0"
          and maxAge = 10, THEN conjunct2, THEN mp, OF h])
qed


end
